theory Spec2Isabelle
  imports Complex_Main
begin

section \<open>Errors\<close>

text \<open>
  Every exception the modelled functions raise is a value of this type. The first group
  are the exception classes the repository declares, the second group are the Python
  built-in exceptions its code can raise, and \<open>Raised\<close> stands for any exception
  raised by code supplied from outside (a wrapped function, a validator, a handler).
\<close>

datatype error =
    UnsetValidatorException
  | MissingSearchSpaceException
  | UnsetCalibrationConfigurationException
  | NonTunableConfigurationException string
  | ConditionFailed string
  | RuntimeError
  | TypeError
  | AttributeError
  | IndexError
  | KeyError
  | FileNotFoundError
  | Raised string

section \<open>Calibrator configuration (configurations/calibrator.py)\<close>

datatype ValidateCondition = MAXIMIZATION | MINIMIZATION

record RegistrationKey =
  key_name :: string
  key_tags :: "string list"
  key_namespace :: string

text \<open>
  The parameters \<open>HyperoptCalibratorConfig.get_default\<close> declares, in declaration order.
  A parameter declared without a value holds \<open>None\<close>.
\<close>

record HyperoptCalibratorConfig =
  validate_on :: "string option"
  validate_condition :: "ValidateCondition option"
  file_manager_registration_key :: RegistrationKey
  max_evaluations :: int
  mongo_directory :: string
  mongo_workers_directory :: string
  hyperopt_additional_info :: "(string \<times> string) list option"
  use_mongo :: bool
  mongo_address :: string
  mongo_port :: int
  workers :: int
  reserve_timeout :: real
  max_consecutive_failures :: int
  poll_interval :: real
  use_subprocesses :: bool
  worker_sleep_interval :: real

definition HyperoptCalibratorConfig_get_default :: HyperoptCalibratorConfig where
  "HyperoptCalibratorConfig_get_default =
     \<lparr> validate_on = None,
       validate_condition = None,
       file_manager_registration_key =
         \<lparr> key_name = ''file_manager'', key_tags = [''default''], key_namespace = ''generic'' \<rparr>,
       max_evaluations = - 1,
       mongo_directory = ''mongodb'',
       mongo_workers_directory = ''mongo_workers'',
       hyperopt_additional_info = None,
       use_mongo = False,
       mongo_address = ''localhost'',
       mongo_port = 4000,
       workers = 2,
       reserve_timeout = 10,
       max_consecutive_failures = 2,
       poll_interval = 5,
       use_subprocesses = False,
       worker_sleep_interval = 2 \<rparr>"

text \<open>
  The two conditions \<open>get_default\<close> registers with \<open>add_condition_short\<close>, by name,
  in registration order. The source reads the delay as
  \<open>parameters.worker_sleep_interval.value\<close> and the number of evaluations as
  \<open>parameters.max_evaluations\<close>; how the core library hands parameters to a condition
  is not part of the sources, and the model compares the value of the parameter in both.
\<close>

definition HyperoptCalibratorConfig_conditions ::
    "(string \<times> (HyperoptCalibratorConfig \<Rightarrow> bool)) list" where
  "HyperoptCalibratorConfig_conditions =
     [ (''worker_sleep_interval_minimum'', \<lambda>parameters. worker_sleep_interval parameters \<ge> 1 / 2),
       (''max_evaluations_minimum'', \<lambda>parameters. max_evaluations parameters > 0) ]"

text \<open>
  Modelled from the spec: the validation of a configuration lives in the core library,
  which is not part of the sources. The spec says that the registered cross-field
  conditions are checked whenever the configuration is validated; the model checks them
  in registration order and fails with the name of the first one that does not hold.
\<close>

fun check_conditions :: "(string \<times> ('c \<Rightarrow> bool)) list \<Rightarrow> 'c \<Rightarrow> error + unit" where
  "check_conditions [] c = Inr ()"
| "check_conditions ((n, cond) # rest) c =
     (if cond c then check_conditions rest c else Inl (ConditionFailed n))"

definition HyperoptCalibratorConfig_validate :: "HyperoptCalibratorConfig \<Rightarrow> error + unit" where
  "HyperoptCalibratorConfig_validate c = check_conditions HyperoptCalibratorConfig_conditions c"

section \<open>Pipeline configuration (configurations/pipeline.py)\<close>

text \<open>
  A configuration is a dictionary from parameter names to parameters; reading an attribute
  of a configuration (\<open>self.ordering\<close>) yields the value of the parameter of that name.
  Of a parameter the model keeps the value, the tags and the two flags that
  \<open>add_pipeline_component\<close> sets; type hints, descriptions and variants are handed to
  \<open>add_short\<close> untouched and play no part in the ordering.
\<close>

datatype pvalue = PNone | PNames "string list" | PRef RegistrationKey

record Parameter =
  p_value :: pvalue
  p_tags :: "string set"
  p_is_required :: bool
  p_is_registration :: bool

type_synonym Configuration = "string \<rightharpoonup> Parameter"

text \<open>
  Modelled from the spec: \<open>add_short\<close> belongs to the core library. It registers a new
  field under the given name. The spec leaves registering a name twice undefined; the
  model fails there, so that nothing proved below rests on it.
\<close>

definition add_short :: "Configuration \<Rightarrow> string \<Rightarrow> Parameter \<Rightarrow> error + Configuration" where
  "add_short c n p = (if c n \<noteq> None then Inl (Raised ''AlreadyExistingParameter'') else Inr (c(n \<mapsto> p)))"

text \<open>
  Python's \<open>list.insert(i, x)\<close>: a negative index counts from the end, and an index
  beyond either end is clamped to that end.
\<close>

definition list_insert :: "'a list \<Rightarrow> int \<Rightarrow> 'a \<Rightarrow> 'a list" where
  "list_insert xs i x =
     (let n = int (length xs);
          j = (if i < 0 then max 0 (i + n) else min i n)
      in take (nat j) xs @ [x] @ drop (nat j) xs)"

definition add_pipeline_component ::
    "Configuration \<Rightarrow> string \<Rightarrow> pvalue \<Rightarrow> string set option \<Rightarrow> bool \<Rightarrow> int option
      \<Rightarrow> error + Configuration" where
  "add_pipeline_component self name val tags is_required order =
     (let tags' = (case tags of Some t \<Rightarrow> t \<union> {''pipeline''} | None \<Rightarrow> {''pipeline''}) in
      case add_short self name
             \<lparr> p_value = val, p_tags = tags', p_is_required = is_required,
               p_is_registration = True \<rparr> of
        Inl e \<Rightarrow> Inl e
      | Inr c1 \<Rightarrow>
          (case (if c1 ''ordering'' = None
                 then add_short c1 ''ordering''
                        \<lparr> p_value = PNames [], p_tags = {}, p_is_required = True,
                          p_is_registration = False \<rparr>
                 else Inr c1) of
             Inl e \<Rightarrow> Inl e
           | Inr c2 \<Rightarrow>
               (case c2 ''ordering'' of
                  None \<Rightarrow> Inl AttributeError
                | Some p \<Rightarrow>
                    (case p_value p of
                       PNames names \<Rightarrow>
                         Inr (c2(''ordering'' \<mapsto>
                                p \<lparr> p_value := PNames
                                      (case order of
                                         None \<Rightarrow> names @ [name]
                                       | Some i \<Rightarrow> list_insert names i name) \<rparr>))
                     | _ \<Rightarrow> Inl AttributeError))))"

text \<open>
  A sequence of calls on one configuration, each call a stage name with its optional
  explicit order (value \<open>None\<close>, no tags, not required); an exception ends the sequence.
\<close>

fun add_pipeline_components ::
    "(string \<times> int option) list \<Rightarrow> Configuration \<Rightarrow> error + Configuration" where
  "add_pipeline_components [] c = Inr c"
| "add_pipeline_components ((name, order) # calls) c =
     (case add_pipeline_component c name PNone None False order of
        Inl e \<Rightarrow> Inl e
      | Inr c' \<Rightarrow> add_pipeline_components calls c')"

text \<open>The ordering list a configuration holds: empty while the field does not exist.\<close>

definition ordering_of :: "Configuration \<Rightarrow> string list" where
  "ordering_of c =
     (case c ''ordering'' of
        Some p \<Rightarrow> (case p_value p of PNames xs \<Rightarrow> xs | _ \<Rightarrow> [])
      | None \<Rightarrow> [])"

text \<open>
  The ordering field is well formed when it is absent or holds a list of names, which is
  all \<open>add_pipeline_component\<close> ever makes of it.
\<close>

definition ordering_wf :: "Configuration \<Rightarrow> bool" where
  "ordering_wf c =
     (case c ''ordering'' of
        Some p \<Rightarrow> (case p_value p of PNames xs \<Rightarrow> True | _ \<Rightarrow> False)
      | None \<Rightarrow> True)"

text \<open>
  The spec's words for an explicit order: the name is put at that position and the names
  from that position on move back by one.
\<close>

definition insert_at :: "nat \<Rightarrow> 'a \<Rightarrow> 'a list \<Rightarrow> 'a list" where
  "insert_at k x xs = take k xs @ x # drop k xs"

text \<open>
  What the spec says a sequence of calls makes of the ordering list: a call without an
  order appends, a call with an order inserts at that position.
\<close>

fun spec_ordering :: "(string \<times> int option) list \<Rightarrow> string list \<Rightarrow> string list" where
  "spec_ordering [] xs = xs"
| "spec_ordering ((n, None) # cs) xs = spec_ordering cs (xs @ [n])"
| "spec_ordering ((n, Some i) # cs) xs = spec_ordering cs (insert_at (nat i) n xs)"

text \<open>
  Every explicit order of a sequence of calls names a position of the list it is applied
  to (from the front up to, and including, the end); \<open>k\<close> is the length of the list at the
  start.
\<close>

fun orders_in_range :: "(string \<times> int option) list \<Rightarrow> nat \<Rightarrow> bool" where
  "orders_in_range [] k = True"
| "orders_in_range ((n, None) # cs) k = orders_in_range cs (Suc k)"
| "orders_in_range ((n, Some i) # cs) k = (0 \<le> i \<and> i \<le> int k \<and> orders_in_range cs (Suc k))"

section \<open>Calibrator components (components/calibrator.py)\<close>

text \<open>
  The Python values a validator's result record can hold under a key. A score is a float;
  floats are modelled as reals (no NaN, no infinities, no rounding).
\<close>

datatype pyvalue = PyNone | PyFloat real | PyInt int | PyBool bool | PyStr string

type_synonym combination = "(string \<times> pyvalue) list"

text \<open>
  The validator is a component of the core library. The model keeps what the calibrator
  asks of it: the search space of its configuration (\<open>validator.config.get_search_space()\<close>,
  which may raise, or return \<open>None\<close>), and the result record of running a delta copy,
  \<open>validator.get_delta_copy(params_dict=combination).run(**validator_args)\<close>, which may
  raise as well. The delta copy leaves the validator itself untouched, so the outcome is a
  function of the combination and the arguments.
\<close>

record Validator =
  config_get_search_space :: "error + (string \<times> pyvalue list) list option"
  run_delta_copy :: "combination \<Rightarrow> (string \<times> pyvalue) list \<Rightarrow> error + (string \<rightharpoonup> pyvalue)"

text \<open>
  A calibrator: the validator and its arguments as \<open>set_validator\<close> stores them (both
  \<open>None\<close> after construction, the arguments \<open>None\<close> when \<open>set_validator\<close> is called
  without them), and the two parameters of its configuration.
\<close>

record Calibrator =
  validator :: "Validator option"
  validator_args :: "(string \<times> pyvalue) list option"
  monitor_validate_on :: string
  monitor_validate_condition :: ValidateCondition

definition set_validator ::
    "Calibrator \<Rightarrow> Validator \<Rightarrow> (string \<times> pyvalue) list option \<Rightarrow> Calibrator" where
  "set_validator self v args = self \<lparr> validator := Some v, validator_args := args \<rparr>"

text \<open>
  What a calibration leaves in the log, in order: the start of the search with the number
  of combinations, and each combination as its evaluation begins.
\<close>

datatype cal_event = Starting nat | Considering combination

text \<open>
  \<open>evaluate_combination\<close>. Reading the validator of a calibrator that has none raises
  \<open>AttributeError\<close>; unpacking \<open>**None\<close> raises \<open>TypeError\<close>. Reading a field that the
  result record does not have is an error of the core library's \<open>get_field\<close>
  (modelled from the spec, which calls an absent metric a fatal error). The
  metric is accepted when its type is exactly \<open>float\<close>.
\<close>

definition evaluate_combination ::
    "Calibrator \<Rightarrow> combination \<Rightarrow> cal_event list \<Rightarrow> (error + real) \<times> cal_event list" where
  "evaluate_combination self parameter_combination tr =
     (let tr1 = tr @ [Considering parameter_combination] in
      case validator self of
        None \<Rightarrow> (Inl AttributeError, tr1)
      | Some v \<Rightarrow>
          (case validator_args self of
             None \<Rightarrow> (Inl TypeError, tr1)
           | Some args \<Rightarrow>
               (case run_delta_copy v parameter_combination args of
                  Inl e \<Rightarrow> (Inl e, tr1)
                | Inr validator_results \<Rightarrow>
                    (case validator_results (monitor_validate_on self) of
                       None \<Rightarrow> (Inl KeyError, tr1)
                     | Some validation_on_value \<Rightarrow>
                         (case validation_on_value of
                            PyFloat x \<Rightarrow>
                              (if monitor_validate_condition self = MAXIMIZATION
                               then (Inr (- x), tr1)
                               else (Inr x, tr1))
                          | _ \<Rightarrow> (Inl RuntimeError, tr1))))))"

text \<open>
  Modelled from the spec: \<open>get_dict_values_combinations\<close> belongs to the core library. The
  spec asks for the full cartesian product of the candidate lists, every combination of
  every parameter. The model enumerates it with the last parameter varying fastest.
\<close>

fun get_dict_values_combinations :: "(string \<times> 'v list) list \<Rightarrow> (string \<times> 'v) list list" where
  "get_dict_values_combinations [] = [[]]"
| "get_dict_values_combinations ((k, vs) # rest) =
     concat (map (\<lambda>v. map (\<lambda>c. (k, v) # c) (get_dict_values_combinations rest)) vs)"

text \<open>The loop of \<open>GridSearchCalibrator.run\<close>: an exception of an evaluation ends it.\<close>

fun calibration_loop ::
    "Calibrator \<Rightarrow> combination list \<Rightarrow> (real \<times> combination) list \<Rightarrow> cal_event list
      \<Rightarrow> (error + (real \<times> combination) list) \<times> cal_event list" where
  "calibration_loop self [] calibration_results tr = (Inr calibration_results, tr)"
| "calibration_loop self (combination # combinations) calibration_results tr =
     (case evaluate_combination self combination tr of
        (Inl e, tr') \<Rightarrow> (Inl e, tr')
      | (Inr combination_result, tr') \<Rightarrow>
          calibration_loop self combinations
            (calibration_results @ [(combination_result, combination)]) tr')"

text \<open>
  \<open>GridSearchCalibrator.run\<close>. Python's \<open>sorted\<close> with a key is a stable sort, as
  \<open>sort_key\<close> is; indexing an empty list raises \<open>IndexError\<close>.
\<close>

definition GridSearchCalibrator_run ::
    "Calibrator \<Rightarrow> cal_event list \<Rightarrow> (error + (real \<times> combination)) \<times> cal_event list" where
  "GridSearchCalibrator_run self tr =
     (case validator self of
        None \<Rightarrow> (Inl UnsetValidatorException, tr)
      | Some v \<Rightarrow>
          (case config_get_search_space v of
             Inl e \<Rightarrow> (Inl e, tr)
           | Inr None \<Rightarrow> (Inl MissingSearchSpaceException, tr)
           | Inr (Some search_space) \<Rightarrow>
               (let combinations = get_dict_values_combinations search_space;
                    tr1 = tr @ [Starting (length combinations)]
                in case calibration_loop self combinations [] tr1 of
                     (Inl e, tr2) \<Rightarrow> (Inl e, tr2)
                   | (Inr calibration_results, tr2) \<Rightarrow>
                       (case sort_key fst calibration_results of
                          [] \<Rightarrow> (Inl IndexError, tr2)
                        | best # _ \<Rightarrow> (Inr best, tr2)))))"

text \<open>
  The score of a combination: what \<open>evaluate_combination\<close> returns for it when it returns.
\<close>

definition score_of :: "Calibrator \<Rightarrow> combination \<Rightarrow> real" where
  "score_of self c = (case fst (evaluate_combination self c []) of Inr s \<Rightarrow> s | Inl e \<Rightarrow> 0)"

text \<open>
  A combination of a search space picks, for each parameter in turn, one of its candidates.
\<close>

fun is_combination :: "(string \<times> 'v list) list \<Rightarrow> (string \<times> 'v) list \<Rightarrow> bool" where
  "is_combination [] c = (c = [])"
| "is_combination ((k, vs) # rest) [] = False"
| "is_combination ((k, vs) # rest) ((k', v) # c) = (k' = k \<and> v \<in> set vs \<and> is_combination rest c)"

text \<open>
  An example for the grid search: two parameters with three and two candidates, and a
  validator whose loss is the squared distance of the first parameter from 2, so that the
  two combinations with the first parameter 2 share the lowest score.
\<close>

definition example_validator :: Validator where
  "example_validator =
     \<lparr> config_get_search_space =
         Inr (Some [(''width'', [PyInt 1, PyInt 2, PyInt 3]), (''depth'', [PyInt 5, PyInt 4])]),
       run_delta_copy =
         (\<lambda>c args. Inr [''loss'' \<mapsto>
            (case c of
               [(k1, PyInt a), (k2, PyInt b)] \<Rightarrow> PyFloat (real_of_int ((a - 2) * (a - 2)))
             | _ \<Rightarrow> PyNone)]) \<rparr>"

definition example_calibrator :: Calibrator where
  "example_calibrator =
     \<lparr> validator = Some example_validator,
       validator_args = Some [],
       monitor_validate_on = ''loss'',
       monitor_validate_condition = MINIMIZATION \<rparr>"

section \<open>Callbacks (components/callback.py)\<close>

text \<open>
  What happens around callbacks is recorded as a list of events: a hookpoint fired on a
  callbacks object by the hookpoint guard (with the logs handed over), a handler of a
  callback invoked (by the label of the callback, the hookpoint and the logs), and
  whatever a wrapped function reports of its own run.
\<close>

datatype cb_event = Fired string pyvalue | Invoked string string pyvalue | Ran string

text \<open>
  An attribute that \<open>getattr\<close> finds on a callback is a hookpoint handler (a method that
  takes \<open>logs\<close> as a keyword and returns, or raises the given exception), a value that
  cannot be called, or a method with another signature.
\<close>

datatype attribute = Handler "pyvalue \<Rightarrow> error option" | NotCallable | OtherMethod

text \<open>
  A callback holds the two instance attributes its constructor sets, \<open>component\<close> and
  \<open>save_path\<close>, and exposes further attributes by name: the methods of its class, among
  them its hookpoint handlers, and what it inherits from the core component.
\<close>

record Callback =
  label :: string
  component :: "string option"
  save_path :: "string option"
  further_attributes :: "string \<rightharpoonup> attribute"

definition Callback_init :: "string \<Rightarrow> (string \<rightharpoonup> attribute) \<Rightarrow> Callback" where
  "Callback_init l attrs =
     \<lparr> label = l, component = None, save_path = None, further_attributes = attrs \<rparr>"

definition Callback_setup :: "Callback \<Rightarrow> string \<Rightarrow> string \<Rightarrow> Callback" where
  "Callback_setup self owner path = self \<lparr> component := Some owner, save_path := Some path \<rparr>"

text \<open>
  \<open>getattr(self, n)\<close>, with \<open>None\<close> where \<open>hasattr(self, n)\<close> is false. The instance
  attributes come first; they hold \<open>None\<close>, or a component and a path, none of which can
  be called. The methods \<open>run\<close> and \<open>setup\<close> of the class \<open>Callback\<close> itself come last:
  called with \<open>logs\<close> alone, \<open>setup\<close> misses its arguments and \<open>run\<close> looks up the
  hookpoint \<open>None\<close>.
\<close>

definition Callback_getattr :: "Callback \<Rightarrow> string \<Rightarrow> attribute option" where
  "Callback_getattr self n =
     (if n = ''component'' \<or> n = ''save_path'' then Some NotCallable
      else case further_attributes self n of
             Some a \<Rightarrow> Some a
           | None \<Rightarrow> if n = ''run'' \<or> n = ''setup'' then Some OtherMethod else None)"

definition call_attribute ::
    "Callback \<Rightarrow> string \<Rightarrow> attribute \<Rightarrow> pyvalue \<Rightarrow> cb_event list
      \<Rightarrow> (error + unit) \<times> cb_event list" where
  "call_attribute self h a logs tr =
     (case a of
        Handler outcome \<Rightarrow>
          (case outcome logs of
             None \<Rightarrow> (Inr (), tr @ [Invoked (label self) h logs])
           | Some e \<Rightarrow> (Inl e, tr @ [Invoked (label self) h logs]))
      | NotCallable \<Rightarrow> (Inl TypeError, tr)
      | OtherMethod \<Rightarrow> (Inl TypeError, tr))"

text \<open>
  \<open>Callback.run\<close>. The hookpoint is an optional string with default \<open>None\<close>;
  \<open>hasattr(self, None)\<close> raises \<open>TypeError\<close> (an attribute name must be a string).
\<close>

definition Callback_run ::
    "Callback \<Rightarrow> string option \<Rightarrow> pyvalue \<Rightarrow> cb_event list \<Rightarrow> (error + unit) \<times> cb_event list" where
  "Callback_run self hookpoint logs tr =
     (case hookpoint of
        None \<Rightarrow> (Inl TypeError, tr)
      | Some h \<Rightarrow>
          (case Callback_getattr self h of
             None \<Rightarrow> (Inr (), tr)
           | Some hookpoint_method \<Rightarrow> call_attribute self h hookpoint_method logs tr))"

text \<open>
  \<open>CallbackPipeline.run\<close>: the children in declared order; an exception of a child ends
  the loop.
\<close>

record CallbackPipeline =
  callbacks :: "Callback list"

fun run_callbacks ::
    "Callback list \<Rightarrow> string option \<Rightarrow> pyvalue \<Rightarrow> cb_event list
      \<Rightarrow> (error + unit) \<times> cb_event list" where
  "run_callbacks [] hookpoint logs tr = (Inr (), tr)"
| "run_callbacks (callback # rest) hookpoint logs tr =
     (case Callback_run callback hookpoint logs tr of
        (Inl e, tr') \<Rightarrow> (Inl e, tr')
      | (Inr u, tr') \<Rightarrow> run_callbacks rest hookpoint logs tr')"

definition CallbackPipeline_run ::
    "CallbackPipeline \<Rightarrow> string option \<Rightarrow> pyvalue \<Rightarrow> cb_event list
      \<Rightarrow> (error + unit) \<times> cb_event list" where
  "CallbackPipeline_run self hookpoint logs tr = run_callbacks (callbacks self) hookpoint logs tr"

text \<open>
  The values a keyword argument can hold: \<open>None\<close>, a callback pipeline, or a plain value.
  A wrapped function takes the positional and the keyword arguments; it returns a value or
  raises, and reports the events of its own run.
\<close>

datatype pyobj = ObjNone | ObjCallbacks CallbackPipeline | ObjValue pyvalue

type_synonym wrapped =
  "pyobj list \<Rightarrow> (string \<rightharpoonup> pyobj) \<Rightarrow> (error + pyvalue) \<times> cb_event list"

text \<open>
  \<open>callbacks.run(hookpoint=h, logs=logs)\<close> as the guard calls it on the object found under
  the key: a plain value has no method \<open>run\<close>.
\<close>

definition fire ::
    "pyobj \<Rightarrow> string \<Rightarrow> pyvalue \<Rightarrow> cb_event list \<Rightarrow> (error + unit) \<times> cb_event list" where
  "fire obj h logs tr =
     (case obj of
        ObjCallbacks p \<Rightarrow> CallbackPipeline_run p (Some h) logs (tr @ [Fired h logs])
      | _ \<Rightarrow> (Inl AttributeError, tr))"

text \<open>
  \<open>hookpoint_guard(func, hookpoint)\<close> applied to the arguments of a call: the body of
  \<open>func_wrap\<close>.
\<close>

definition hookpoint_guard ::
    "wrapped \<Rightarrow> string \<Rightarrow> pyobj list \<Rightarrow> (string \<rightharpoonup> pyobj) \<Rightarrow> cb_event list
      \<Rightarrow> (error + pyvalue) \<times> cb_event list" where
  "hookpoint_guard func hookpoint args kwargs tr =
     (let start_hookpoint = hookpoint @ ''_begin'';
          end_hookpoint = hookpoint @ ''_end'';
          cbs = (case kwargs ''callbacks'' of None \<Rightarrow> ObjNone | Some c \<Rightarrow> c)
      in case (if cbs \<noteq> ObjNone then fire cbs start_hookpoint PyNone tr else (Inr (), tr)) of
           (Inl e, tr1) \<Rightarrow> (Inl e, tr1)
         | (Inr u, tr1) \<Rightarrow>
             (case func args kwargs of
                (Inl e, evs) \<Rightarrow> (Inl e, tr1 @ evs)
              | (Inr res, evs) \<Rightarrow>
                  (case (if cbs \<noteq> ObjNone then fire cbs end_hookpoint res (tr1 @ evs)
                         else (Inr (), tr1 @ evs)) of
                     (Inl e, tr2) \<Rightarrow> (Inl e, tr2)
                   | (Inr u, tr2) \<Rightarrow> (Inr res, tr2))))"

definition guard :: "string \<Rightarrow> wrapped \<Rightarrow> pyobj list \<Rightarrow> (string \<rightharpoonup> pyobj) \<Rightarrow> cb_event list
      \<Rightarrow> (error + pyvalue) \<times> cb_event list" where
  "guard hookpoint func = hookpoint_guard func hookpoint"

text \<open>
  An example: a callback that handles the two hookpoints of \<open>on_fit\<close>, a callback that
  handles none, and a function that returns 7 and reports its run.
\<close>

definition example_logger :: Callback where
  "example_logger =
     Callback_init ''logger''
       [''on_fit_begin'' \<mapsto> Handler (\<lambda>logs. None), ''on_fit_end'' \<mapsto> Handler (\<lambda>logs. None)]"

definition example_silent :: Callback where
  "example_silent = Callback_init ''silent'' Map.empty"

definition example_pipeline :: CallbackPipeline where
  "example_pipeline = \<lparr> callbacks = [example_silent, example_logger] \<rparr>"

definition example_fit :: wrapped where
  "example_fit args kwargs = (Inr (PyInt 7), [Ran ''fit''])"

definition example_failing_fit :: wrapped where
  "example_failing_fit args kwargs = (Inl (Raised ''ValueError''), [Ran ''fit''])"

section \<open>Search space of a tunable configuration (configurations/calibrator.py)\<close>

text \<open>
  \<open>get_search_space\<close> reads the default instance of a configuration class and resolves
  registration keys through the registry of the core library. The model takes what the
  registry resolves to: a tunable configuration class has the search space entries that
  the default of its calibration configuration declares (\<open>None\<close> while
  \<open>calibration_config\<close> is not set) and, by field name and in the order of the fields,
  the configuration classes of its other registration parameters; any other class is
  known by its name only.
\<close>

datatype 'v config_class =
    TunableConfiguration "(string \<times> 'v) list option" "(string \<times> 'v config_class) list"
  | OtherConfiguration string

text \<open>The key of an entry below a parent key: \<open>f'{parent_key}.{key}'\<close>, or the key alone.\<close>

definition dotted :: "string option \<Rightarrow> string \<Rightarrow> string" where
  "dotted parent_key k = (case parent_key of None \<Rightarrow> k | Some p \<Rightarrow> p @ ''.'' @ k)"

text \<open>
  A Python dictionary as the list of its items in insertion order: storing under a key
  that is present replaces the value in place, a new key goes to the end. The merge
  \<open>{**buffer, **search_space}\<close> stores the items of the second dictionary one by one.
\<close>

fun dict_set :: "string \<Rightarrow> 'v \<Rightarrow> (string \<times> 'v) list \<Rightarrow> (string \<times> 'v) list" where
  "dict_set k v [] = [(k, v)]"
| "dict_set k v ((k', v') # rest) = (if k' = k then (k, v) # rest else (k', v') # dict_set k v rest)"

definition dict_merge :: "(string \<times> 'v) list \<Rightarrow> (string \<times> 'v) list \<Rightarrow> (string \<times> 'v) list" where
  "dict_merge buffer items = fold (\<lambda>(k, v). dict_set k v) items buffer"

text \<open>
  \<open>TunableConfiguration.get_search_space\<close>, with the loop over the children as a second
  function. The method exists on tunable classes only.
\<close>

fun get_search_space ::
    "'v config_class \<Rightarrow> (string \<times> 'v) list option \<Rightarrow> string option \<Rightarrow> error + (string \<times> 'v) list"
  and search_children ::
    "(string \<times> 'v config_class) list \<Rightarrow> (string \<times> 'v) list \<Rightarrow> string option
      \<Rightarrow> error + (string \<times> 'v) list" where
  "get_search_space (TunableConfiguration calibration_config children) buffer parent_key =
     (let buffer1 = (case buffer of Some b \<Rightarrow> b | None \<Rightarrow> []) in
      case calibration_config of
        None \<Rightarrow> Inl UnsetCalibrationConfigurationException
      | Some search_space \<Rightarrow>
          (case search_children children buffer1 parent_key of
             Inl e \<Rightarrow> Inl e
           | Inr buffer2 \<Rightarrow>
               Inr (dict_merge buffer2
                      (dict_merge [] (map (\<lambda>(k, v). (dotted parent_key k, v)) search_space)))))"
| "get_search_space (OtherConfiguration class_type) buffer parent_key = Inl AttributeError"
| "search_children [] buffer parent_key = Inr buffer"
| "search_children ((child_name, OtherConfiguration class_type) # rest) buffer parent_key =
     Inl (NonTunableConfigurationException class_type)"
| "search_children ((child_name, TunableConfiguration calibration_config children) # rest)
       buffer parent_key =
     (case get_search_space (TunableConfiguration calibration_config children) (Some buffer)
             (Some (dotted parent_key child_name)) of
        Inl e \<Rightarrow> Inl e
      | Inr buffer' \<Rightarrow> search_children rest buffer' parent_key)"

text \<open>
  Every configuration of the tree is tunable and has its calibration configuration set.
\<close>

fun all_tunable :: "'v config_class \<Rightarrow> bool"
  and all_tunable_children :: "(string \<times> 'v config_class) list \<Rightarrow> bool" where
  "all_tunable (TunableConfiguration calibration_config children) =
     (calibration_config \<noteq> None \<and> all_tunable_children children)"
| "all_tunable (OtherConfiguration class_type) = False"
| "all_tunable_children [] = True"
| "all_tunable_children ((child_name, c) # rest) = (all_tunable c \<and> all_tunable_children rest)"

text \<open>
  The spec's words for the flat search space: the entries of every child, in the order of
  the fields, under the parent key extended by the name of the field, and after them the
  configuration's own entries under its own parent key.
\<close>

fun flat_entries :: "'v config_class \<Rightarrow> string option \<Rightarrow> (string \<times> 'v) list"
  and flat_children :: "(string \<times> 'v config_class) list \<Rightarrow> string option \<Rightarrow> (string \<times> 'v) list" where
  "flat_entries (TunableConfiguration calibration_config children) parent_key =
     flat_children children parent_key
     @ map (\<lambda>(k, v). (dotted parent_key k, v))
         (case calibration_config of Some search_space \<Rightarrow> search_space | None \<Rightarrow> [])"
| "flat_entries (OtherConfiguration class_type) parent_key = []"
| "flat_children [] parent_key = []"
| "flat_children ((child_name, c) # rest) parent_key =
     flat_entries c (Some (dotted parent_key child_name)) @ flat_children rest parent_key"

text \<open>
  The mapping that storing a sequence of entries one after the other leaves: a later entry
  overwrites an earlier one of the same key.
\<close>

definition last_wins :: "(string \<times> 'v) list \<Rightarrow> (string \<rightharpoonup> 'v)" where
  "last_wins items = map_of (rev items)"

section \<open>Commands (api/commands.py)\<close>

text \<open>
  The state the commands work on: the paths that exist on disk (each path on its own; the
  content of a directory is not modelled), the target and the entries of the log, the
  table of the directory manager from temporary run paths to their intended final paths,
  the runs the manager was told to track, and, by path, the registration key stored in a
  metadata file.
\<close>

datatype level = INFO | WARNING

datatype message =
    RetrievingComponent RegistrationKey
  | SerializingTo string
  | ReplacementExists string
  | Renaming string string

record world =
  existing :: "string set"
  log_target :: "string option"
  log_entries :: "(level \<times> message) list"
  runs_registry :: "string \<rightharpoonup> string"
  tracked_runs :: "(RegistrationKey \<times> string) list"
  metadata_files :: "string \<rightharpoonup> RegistrationKey"

definition logger :: "level \<Rightarrow> message \<Rightarrow> world \<Rightarrow> world" where
  "logger l m w = w \<lparr> log_entries := log_entries w @ [(l, m)] \<rparr>"

definition joinpath :: "string \<Rightarrow> string \<Rightarrow> string" where
  "joinpath p q = p @ ''/'' @ q"

text \<open>
  \<open>Path.rename\<close> of a path that exists to a path that does not: the first is gone, the
  second exists.
\<close>

definition rename :: "string \<Rightarrow> string \<Rightarrow> world \<Rightarrow> world" where
  "rename src dst w = w \<lparr> existing := insert dst (existing w - {src}) \<rparr>"

text \<open>
  Modelled from the spec: \<open>track_run\<close> belongs to the directory manager, whose source is
  not included. The spec says it records that the key last produced output at the path.
\<close>

definition track_run :: "RegistrationKey \<Rightarrow> string \<Rightarrow> world \<Rightarrow> world" where
  "track_run registration_key serialization_path w =
     w \<lparr> tracked_runs := tracked_runs w @ [(registration_key, serialization_path)] \<rparr>"

text \<open>
  A component as the commands use it: whether the signature of its \<open>run\<close> has a parameter
  \<open>serialization_path\<close>, and what \<open>run\<close> and \<open>save\<close> do to the state (or the exception
  they raise). Run arguments are a dictionary of paths, flags, components and plain values.
\<close>

datatype 'c arg = ArgPath string | ArgBool bool | ArgComponent 'c | ArgValue pyvalue

record Component =
  accepts_serialization_path :: bool
  component_run :: "(string \<times> unit arg) list \<Rightarrow> world \<Rightarrow> error + world"
  component_save :: "string \<Rightarrow> world \<Rightarrow> error + world"

text \<open>
  What the commands take from the registry and from the directory manager, both outside
  the sources: building a component from a key, allocating a temporary run path for a
  desired final name (which may create the path and records the final path in the table),
  the name of the log file, the directory of routine results, and the helper that is
  built from a key or retrieved as the default. A helper reaches the component as an
  argument; the model passes it by name only.
\<close>

record environment =
  build_component_from_key :: "RegistrationKey \<Rightarrow> error + Component"
  register_temporary_run_name :: "string option \<Rightarrow> bool \<Rightarrow> world \<Rightarrow> error + string \<times> world"
  logging_filename :: string
  routine_directory :: string
  resolve_helper :: "RegistrationKey option \<Rightarrow> error + unit"

text \<open>
  The end of \<open>run_component_from_key\<close> (from the test of \<open>run_name\<close> on): the rename of
  the temporary path to the final path, skipped with a warning when the final path
  exists, and the tracking of the path that is then the output path. Reading the table at
  a path it does not hold raises \<open>KeyError\<close>. After the rename the variable
  \<open>serialization_path\<close> already holds the final path when the message is formatted.
\<close>

definition finalize_run ::
    "RegistrationKey \<Rightarrow> string option \<Rightarrow> string \<Rightarrow> world \<Rightarrow> error + world" where
  "finalize_run config_registration_key run_name serialization_path w =
     (case (if run_name \<noteq> None \<and> serialization_path \<in> existing w
            then (case runs_registry w serialization_path of
                    None \<Rightarrow> Inl KeyError
                  | Some replacement_path \<Rightarrow>
                      if replacement_path \<in> existing w
                      then Inr (serialization_path,
                                logger WARNING (ReplacementExists replacement_path) w)
                      else Inr (replacement_path,
                                logger INFO (Renaming replacement_path replacement_path)
                                  (rename serialization_path replacement_path w)))
            else Inr (serialization_path, w)) of
        Inl e \<Rightarrow> Inl e
      | Inr (serialization_path', w') \<Rightarrow>
          Inr (if serialization_path' \<in> existing w'
               then track_run config_registration_key serialization_path' w'
               else w'))"

definition run_component_from_key ::
    "environment \<Rightarrow> RegistrationKey \<Rightarrow> bool \<Rightarrow> string option \<Rightarrow> (string \<times> unit arg) list option
      \<Rightarrow> world \<Rightarrow> error + world" where
  "run_component_from_key env config_registration_key serialize run_name run_args w =
     (let w1 = logger INFO (RetrievingComponent config_registration_key) w in
      case build_component_from_key env config_registration_key of
        Inl e \<Rightarrow> Inl e
      | Inr the_component \<Rightarrow>
          (case register_temporary_run_name env run_name serialize w1 of
             Inl e \<Rightarrow> Inl e
           | Inr (serialization_path, w2) \<Rightarrow>
               (let w3 = w2 \<lparr> log_target :=
                                Some (joinpath serialization_path (logging_filename env)) \<rparr>;
                    run_args1 = (case run_args of Some a \<Rightarrow> a | None \<Rightarrow> []);
                    run_args2 = (if accepts_serialization_path the_component
                                 then dict_set ''serialization_path''
                                        (ArgPath serialization_path) run_args1
                                 else run_args1)
                in case component_run the_component run_args2 w3 of
                     Inl e \<Rightarrow> Inl e
                   | Inr w4 \<Rightarrow>
                       (case (if serialize
                              then component_save the_component serialization_path
                                     (logger INFO (SerializingTo serialization_path) w4)
                              else Inr w4) of
                          Inl e \<Rightarrow> Inl e
                        | Inr w5 \<Rightarrow>
                            finalize_run config_registration_key run_name
                              serialization_path w5))))"

text \<open>
  \<open>routine_inference\<close>. The metadata file is a regular file with the stored key, or it is
  missing.
\<close>

definition routine_inference ::
    "environment \<Rightarrow> string option \<Rightarrow> string option \<Rightarrow> RegistrationKey option \<Rightarrow> bool
      \<Rightarrow> world \<Rightarrow> error + world" where
  "routine_inference env routine_path routine_name helper_registration_key serialize w =
     (if routine_path = None \<and> routine_name = None then Inl AttributeError
      else
        (let routine_path1 =
               (case routine_path of
                  Some p \<Rightarrow> p
                | None \<Rightarrow> joinpath (routine_directory env)
                            (case routine_name of Some n \<Rightarrow> n | None \<Rightarrow> []));
             metadata_path = joinpath routine_path1 ''command_metadata.json''
         in case metadata_files w metadata_path of
              None \<Rightarrow> Inl FileNotFoundError
            | Some routine_registration_key \<Rightarrow>
                (case resolve_helper env helper_registration_key of
                   Inl e \<Rightarrow> Inl e
                 | Inr helper \<Rightarrow>
                     run_component_from_key env routine_registration_key serialize routine_name
                       (Some [(''helper'', ArgComponent helper), (''is_training'', ArgBool False)])
                       w)))"

text \<open>
  \<open>routine_multiple_inference\<close>: the pairs of path and name that the loop goes through,
  and the loop, which an exception ends.
\<close>

definition inference_pairs ::
    "string list option \<Rightarrow> string list option \<Rightarrow> error + (string option \<times> string option) list" where
  "inference_pairs routine_paths routine_names =
     (if routine_paths = None \<and> routine_names = None then Inl AttributeError
      else
        (case routine_paths of
           Some paths \<Rightarrow> Inr (zip (map Some paths) (replicate (length paths) None))
         | None \<Rightarrow>
             (case routine_names of
                Some names \<Rightarrow> Inr (zip (replicate (length names) None) (map Some names))
              | None \<Rightarrow> Inr [])))"

fun inference_loop ::
    "environment \<Rightarrow> (string option \<times> string option) list \<Rightarrow> RegistrationKey option \<Rightarrow> bool
      \<Rightarrow> world \<Rightarrow> error + world" where
  "inference_loop env [] helper_registration_key serialize w = Inr w"
| "inference_loop env ((routine_path, routine_name) # rest) helper_registration_key serialize w =
     (case routine_inference env routine_path routine_name helper_registration_key serialize w of
        Inl e \<Rightarrow> Inl e
      | Inr w' \<Rightarrow> inference_loop env rest helper_registration_key serialize w')"

definition routine_multiple_inference ::
    "environment \<Rightarrow> string list option \<Rightarrow> string list option \<Rightarrow> RegistrationKey option \<Rightarrow> bool
      \<Rightarrow> world \<Rightarrow> error + world" where
  "routine_multiple_inference env routine_paths routine_names helper_registration_key serialize w =
     (case inference_pairs routine_paths routine_names of
        Inl e \<Rightarrow> Inl e
      | Inr pairs \<Rightarrow> inference_loop env pairs helper_registration_key serialize w)"

text \<open>
  An example for the commands: a component that runs and saves without touching the state,
  a manager that always allocates the temporary path \<open>runs/tmp_1\<close> and records the final
  path \<open>runs/\<close> followed by the desired name, and a disk on which \<open>runs/best\<close> exists.
\<close>

definition example_key :: RegistrationKey where
  "example_key = \<lparr> key_name = ''trainer'', key_tags = [''default''], key_namespace = ''generic'' \<rparr>"

definition example_component :: Component where
  "example_component =
     \<lparr> accepts_serialization_path = True,
       component_run = (\<lambda>args w. Inr w),
       component_save = (\<lambda>path w. Inr w) \<rparr>"

definition example_environment :: environment where
  "example_environment =
     \<lparr> build_component_from_key = (\<lambda>k. Inr example_component),
       register_temporary_run_name =
         (\<lambda>replacement_name create_path w.
            Inr (''runs/tmp_1'',
                 w \<lparr> existing := (if create_path then insert ''runs/tmp_1'' (existing w)
                                   else existing w),
                     runs_registry :=
                       (case replacement_name of
                          Some n \<Rightarrow> (runs_registry w)(''runs/tmp_1'' \<mapsto> joinpath ''runs'' n)
                        | None \<Rightarrow> runs_registry w) \<rparr>)),
       logging_filename = ''log.txt'',
       routine_directory = ''routines'',
       resolve_helper = (\<lambda>k. Inr ()) \<rparr>"

definition example_world :: world where
  "example_world =
     \<lparr> existing = {''runs/best''},
       log_target = None,
       log_entries = [],
       runs_registry = Map.empty,
       tracked_runs = [],
       metadata_files = Map.empty \<rparr>"

section \<open>Theorems\<close>

subsection \<open>C5: the default hyperopt configuration fails its own validation\<close>

text \<open>
  C5. The default \<open>HyperoptCalibratorConfig\<close> declares \<open>max_evaluations = -1\<close> and
  \<open>worker_sleep_interval = 2.0\<close>; validating it fails on the condition
  \<open>max_evaluations_minimum\<close> (the delay condition holds), and the default with
  \<open>max_evaluations\<close> overridden by \<open>n\<close> validates exactly when \<open>n > 0\<close>.
\<close>

theorem default_hyperopt_config_fails_validation:
  "max_evaluations HyperoptCalibratorConfig_get_default = - 1
   \<and> worker_sleep_interval HyperoptCalibratorConfig_get_default = 2
   \<and> HyperoptCalibratorConfig_validate HyperoptCalibratorConfig_get_default
       = Inl (ConditionFailed ''max_evaluations_minimum'')
   \<and> (HyperoptCalibratorConfig_validate
         (HyperoptCalibratorConfig_get_default \<lparr> max_evaluations := n \<rparr>) = Inr ()) = (0 < n)"
  by (simp add: HyperoptCalibratorConfig_validate_def HyperoptCalibratorConfig_conditions_def
      HyperoptCalibratorConfig_get_default_def)

theorem default_hyperopt_config_fails_validation_witness:
  "HyperoptCalibratorConfig_validate HyperoptCalibratorConfig_get_default
     = Inl (ConditionFailed ''max_evaluations_minimum'')
   \<and> HyperoptCalibratorConfig_validate
         (HyperoptCalibratorConfig_get_default \<lparr> max_evaluations := 10 \<rparr>) = Inr ()"
  using default_hyperopt_config_fails_validation [of 10] by simp

subsection \<open>C7: the ordering list of a pipeline configuration\<close>

lemma list_insert_in_range:
  "0 \<le> i \<Longrightarrow> i \<le> int (length xs) \<Longrightarrow> list_insert xs i x = insert_at (nat i) x xs"
  by (simp add: list_insert_def insert_at_def min_def)

lemma length_list_insert: "length (list_insert xs i x) = Suc (length xs)"
  by (auto simp: list_insert_def Let_def)

lemma add_pipeline_component_step:
  assumes fresh: "c name = None" and no: "name \<noteq> ''ordering''" and wf: "ordering_wf c"
  shows "\<exists>c'. add_pipeline_component c name v tags req order = Inr c'
           \<and> ordering_of c' = (case order of None \<Rightarrow> ordering_of c @ [name]
                                | Some i \<Rightarrow> list_insert (ordering_of c) i name)
           \<and> ordering_wf c'
           \<and> (\<forall>n. n \<noteq> name \<longrightarrow> n \<noteq> ''ordering'' \<longrightarrow> c' n = c n)"
proof (cases "c ''ordering''")
  case None
  then show ?thesis
    using fresh no
    by (cases order)
      (simp_all add: add_pipeline_component_def add_short_def ordering_of_def ordering_wf_def)
next
  case (Some p)
  with wf obtain xs where xs: "p_value p = PNames xs"
    by (cases "p_value p") (simp_all add: ordering_wf_def)
  show ?thesis
    using fresh no Some xs
    by (cases order)
      (simp_all add: add_pipeline_component_def add_short_def ordering_of_def ordering_wf_def)
qed

lemma add_pipeline_components_seq:
  assumes "distinct (map fst calls)" "''ordering'' \<notin> set (map fst calls)"
    and "\<forall>n \<in> set (map fst calls). c n = None" "ordering_wf c"
    and "orders_in_range calls (length (ordering_of c))"
  shows "\<exists>c'. add_pipeline_components calls c = Inr c'
           \<and> ordering_of c' = spec_ordering calls (ordering_of c)"
  using assms
proof (induction calls arbitrary: c)
  case Nil
  then show ?case by simp
next
  case (Cons call calls)
  obtain name order where call: "call = (name, order)" by (cases call)
  from Cons.prems call have fresh: "c name = None" and no: "name \<noteq> ''ordering''" by auto
  from add_pipeline_component_step [OF fresh no \<open>ordering_wf c\<close>, of PNone None False order]
  obtain c' where step: "add_pipeline_component c name PNone None False order = Inr c'"
    and ord: "ordering_of c' = (case order of None \<Rightarrow> ordering_of c @ [name]
                                | Some i \<Rightarrow> list_insert (ordering_of c) i name)"
    and wf: "ordering_wf c'"
    and same: "\<forall>n. n \<noteq> name \<longrightarrow> n \<noteq> ''ordering'' \<longrightarrow> c' n = c n"
    by blast
  have len: "length (ordering_of c') = Suc (length (ordering_of c))"
    using ord by (cases order) (simp_all add: length_list_insert)
  have fresh': "\<forall>n \<in> set (map fst calls). c' n = None"
  proof
    fix n assume n: "n \<in> set (map fst calls)"
    with Cons.prems(1,2) call have "n \<noteq> name" "n \<noteq> ''ordering''" by force+
    moreover from n Cons.prems(3) have "c n = None" by auto
    ultimately show "c' n = None" using same by simp
  qed
  have rng: "orders_in_range calls (length (ordering_of c'))"
    using Cons.prems(5) call len by (cases order) simp_all
  from Cons.IH [OF _ _ fresh' wf rng] Cons.prems call
  obtain c'' where rest: "add_pipeline_components calls c' = Inr c''"
    and ord'': "ordering_of c'' = spec_ordering calls (ordering_of c')" by auto
  have "spec_ordering (call # calls) (ordering_of c) = spec_ordering calls (ordering_of c')"
  proof (cases order)
    case None
    then show ?thesis using call ord by simp
  next
    case (Some i)
    with Cons.prems(5) call have "0 \<le> i" "i \<le> int (length (ordering_of c))" by simp_all
    then show ?thesis using call ord Some by (simp add: list_insert_in_range)
  qed
  then show ?case using call step rest ord'' by simp
qed

lemma spec_ordering_no_order:
  "\<forall>call \<in> set calls. snd call = None \<Longrightarrow> spec_ordering calls xs = xs @ map fst calls"
proof (induction calls arbitrary: xs)
  case Nil
  then show ?case by simp
next
  case (Cons call calls)
  then obtain n where "call = (n, None)" by (cases call) auto
  with Cons show ?case by simp
qed

lemma orders_in_range_no_order:
  "\<forall>call \<in> set calls. snd call = None \<Longrightarrow> orders_in_range calls k"
proof (induction calls arbitrary: k)
  case Nil
  then show ?case by simp
next
  case (Cons call calls)
  then obtain n where "call = (n, None)" by (cases call) auto
  with Cons show ?case by simp
qed

lemma list_insert_beyond_end:
  "int (length xs) \<le> i \<Longrightarrow> list_insert xs i x = xs @ [x]"
  by (simp add: list_insert_def min_def)

lemma list_insert_negative:
  "i < 0 \<Longrightarrow> list_insert xs i x = insert_at (nat (max 0 (i + int (length xs)))) x xs"
  by (simp add: list_insert_def insert_at_def Let_def)

text \<open>
  C7. Take any sequence of \<open>add_pipeline_component\<close> calls on a fresh configuration whose
  stage names are distinct (and none is the name of the ordering field itself) and whose
  explicit orders are positions of the list at the time of the call. Every call succeeds,
  and the ordering list is what the spec describes: a call with no order appends its name,
  a call with order \<open>i\<close> puts its name at position \<open>i\<close> and moves the names from there on
  back by one. Calls without order therefore yield the names in call order, and a
  fourth call with order 0 after three such calls puts its name first.
\<close>

theorem ordering_follows_calls:
  assumes "distinct (map fst calls)" and "''ordering'' \<notin> set (map fst calls)"
    and "orders_in_range calls 0"
  shows "\<exists>c'. add_pipeline_components calls Map.empty = Inr c'
           \<and> ordering_of c' = spec_ordering calls []
           \<and> ((\<forall>call \<in> set calls. snd call = None) \<longrightarrow> ordering_of c' = map fst calls)"
proof -
  have "ordering_wf Map.empty" and "ordering_of Map.empty = []"
    by (simp_all add: ordering_of_def ordering_wf_def)
  with add_pipeline_components_seq [of calls Map.empty] assms
  obtain c' where run: "add_pipeline_components calls Map.empty = Inr c'"
    and ord: "ordering_of c' = spec_ordering calls []"
    by auto
  from ord have "(\<forall>call \<in> set calls. snd call = None) \<longrightarrow> ordering_of c' = map fst calls"
    by (simp add: spec_ordering_no_order)
  with run ord show ?thesis by blast
qed

theorem ordering_follows_calls_witness:
  "\<exists>c'. add_pipeline_components
          [(''load'', None), (''clean'', None), (''train'', None), (''setup'', Some 0)] Map.empty = Inr c'
        \<and> ordering_of c' = [''setup'', ''load'', ''clean'', ''train'']"
  using ordering_follows_calls
    [of "[(''load'', None), (''clean'', None), (''train'', None), (''setup'', Some 0)]"]
  by (simp add: insert_at_def)

subsection \<open>C2: the score of one combination\<close>

lemma evaluate_combination_trace:
  "evaluate_combination self c tr = (fst (evaluate_combination self c []), tr @ [Considering c])"
  by (simp add: evaluate_combination_def Let_def split: option.splits sum.splits pyvalue.splits)

text \<open>
  C2 (amended). Let the calibrator have a validator and arguments, and let the run of the
  delta copy for the combination return a result record. Then \<open>evaluate_combination\<close>
  raises exactly when the monitored field of that record is absent or holds a value whose
  type is not float: \<open>None\<close>, an integer, a boolean and a string are all refused.
  Otherwise it returns the negated metric under maximization and the metric itself under
  minimization.
\<close>

theorem evaluate_combination_metric:
  assumes "validator self = Some v" and "validator_args self = Some args"
    and "run_delta_copy v c args = Inr validator_results"
  shows "isl (fst (evaluate_combination self c tr))
           = (\<nexists>x. validator_results (monitor_validate_on self) = Some (PyFloat x))
         \<and> (\<forall>x. validator_results (monitor_validate_on self) = Some (PyFloat x) \<longrightarrow>
               fst (evaluate_combination self c tr)
                 = Inr (case monitor_validate_condition self of
                          MAXIMIZATION \<Rightarrow> - x | MINIMIZATION \<Rightarrow> x))"
proof (cases "validator_results (monitor_validate_on self)")
  case None
  with assms show ?thesis by (simp add: evaluate_combination_def)
next
  case (Some val)
  with assms show ?thesis
    by (cases val; cases "monitor_validate_condition self")
      (simp_all add: evaluate_combination_def)
qed

theorem evaluate_combination_metric_witness:
  "fst (evaluate_combination
         \<lparr> validator = Some \<lparr> config_get_search_space = Inr None,
                              run_delta_copy = (\<lambda>c args. Inr [''accuracy'' \<mapsto> PyFloat (3 / 4)]) \<rparr>,
           validator_args = Some [],
           monitor_validate_on = ''accuracy'',
           monitor_validate_condition = MAXIMIZATION \<rparr>
         [(''lr'', PyFloat (1 / 10))] [])
     = Inr (- (3 / 4))"
  using evaluate_combination_metric
    [of "\<lparr> validator = Some \<lparr> config_get_search_space = Inr None,
                              run_delta_copy = (\<lambda>c args. Inr [''accuracy'' \<mapsto> PyFloat (3 / 4)]) \<rparr>,
           validator_args = Some [],
           monitor_validate_on = ''accuracy'',
           monitor_validate_condition = MAXIMIZATION \<rparr>"
        "\<lparr> config_get_search_space = Inr None,
           run_delta_copy = (\<lambda>c args. Inr [''accuracy'' \<mapsto> PyFloat (3 / 4)]) \<rparr>"
        "[]" "[(''lr'', PyFloat (1 / 10))]" "[''accuracy'' \<mapsto> PyFloat (3 / 4)]" "[]"]
  by simp


text \<open>
  The claim as stated, with "not a real number" as the condition of the error, fails for
  an integer metric: the integer 1 is a real number, and the evaluation raises.
\<close>

theorem evaluate_combination_integer_metric_counterexample:
  "fst (evaluate_combination
         \<lparr> validator = Some \<lparr> config_get_search_space = Inr None,
                              run_delta_copy = (\<lambda>c args. Inr [''errors'' \<mapsto> PyInt 1]) \<rparr>,
           validator_args = Some [],
           monitor_validate_on = ''errors'',
           monitor_validate_condition = MINIMIZATION \<rparr>
         [(''lr'', PyFloat (1 / 10))] [])
     = Inl RuntimeError"
  by (simp add: evaluate_combination_def)

subsection \<open>C1: grid search\<close>

lemma length_get_dict_values_combinations:
  "length (get_dict_values_combinations ss) = prod_list (map (\<lambda>p. length (snd p)) ss)"
proof (induction ss)
  case Nil
  then show ?case by simp
next
  case (Cons p ss)
  obtain k vs where p: "p = (k, vs)" by (cases p)
  have "length (concat (map (\<lambda>v. map (\<lambda>c. (k, v) # c) (get_dict_values_combinations ss)) vs))
          = length vs * length (get_dict_values_combinations ss)"
    by (induction vs) simp_all
  with Cons p show ?case by simp
qed

lemma set_get_dict_values_combinations:
  "c \<in> set (get_dict_values_combinations ss) \<longleftrightarrow> is_combination ss c"
proof (induction ss c rule: is_combination.induct)
  case (1 c)
  then show ?case by auto
next
  case (2 k vs rest)
  then show ?case by auto
next
  case (3 k vs rest k' v c)
  then show ?case by auto
qed

lemma get_dict_values_combinations_nonempty:
  "\<forall>p \<in> set ss. snd p \<noteq> [] \<Longrightarrow> get_dict_values_combinations ss \<noteq> []"
proof -
  assume "\<forall>p \<in> set ss. snd p \<noteq> []"
  then have "prod_list (map (\<lambda>p. length (snd p)) ss) \<noteq> 0"
    by (induction ss) auto
  then show ?thesis
    using length_get_dict_values_combinations [of ss] by auto
qed

lemma calibration_loop_all:
  assumes "\<forall>c \<in> set cs. \<not> isl (fst (evaluate_combination self c []))"
  shows "calibration_loop self cs acc tr
           = (Inr (acc @ map (\<lambda>c. (score_of self c, c)) cs), tr @ map Considering cs)"
  using assms
proof (induction cs arbitrary: acc tr)
  case Nil
  then show ?case by simp
next
  case (Cons c cs)
  from Cons.prems obtain s where s: "fst (evaluate_combination self c []) = Inr s"
    by (cases "fst (evaluate_combination self c [])") auto
  then have ev: "evaluate_combination self c tr = (Inr s, tr @ [Considering c])"
    using evaluate_combination_trace [of self c tr] by simp
  have sc: "score_of self c = s" using s by (simp add: score_of_def)
  from Cons.prems have "\<forall>c \<in> set cs. \<not> isl (fst (evaluate_combination self c []))" by simp
  from Cons.IH [OF this] ev sc show ?case by simp
qed

lemma hd_insort_key:
  "ys \<noteq> [] \<Longrightarrow> hd (insort_key f x ys) = (if f x \<le> f (hd ys) then x else hd ys)"
  by (cases ys) simp_all

lemma hd_sort_key_arg_min:
  "xs \<noteq> [] \<Longrightarrow> hd (sort_key f xs) = arg_min_list f xs"
proof (induction f xs rule: arg_min_list.induct)
  case (1 f x)
  then show ?case by simp
next
  case (2 f x y zs)
  have ne: "sort_key f (y # zs) \<noteq> []"
    using length_sort [of f "y # zs"] by (metis length_0_conv list.discI)
  from 2 have ih: "hd (sort_key f (y # zs)) = arg_min_list f (y # zs)" by simp
  have "hd (sort_key f (x # y # zs)) = hd (insort_key f x (sort_key f (y # zs)))"
    by simp
  also have "\<dots> = (if f x \<le> f (hd (sort_key f (y # zs))) then x else hd (sort_key f (y # zs)))"
    using ne by (rule hd_insort_key)
  finally show ?case using ih by (simp add: Let_def)
next
  case (3 f)
  then show ?case by simp
qed

lemma arg_min_list_first:
  "xs \<noteq> [] \<Longrightarrow>
     \<exists>pre post. xs = pre @ arg_min_list f xs # post
       \<and> (\<forall>r \<in> set pre. f (arg_min_list f xs) < f r)
       \<and> (\<forall>r \<in> set post. f (arg_min_list f xs) \<le> f r)"
proof (induction f xs rule: arg_min_list.induct)
  case (1 f x)
  show ?case by (intro exI [of _ "[]"]) simp
next
  case (2 f x y zs)
  let ?m = "arg_min_list f (y # zs)"
  from 2 obtain pre post where split: "y # zs = pre @ ?m # post"
    and pre: "\<forall>r \<in> set pre. f ?m < f r" and post: "\<forall>r \<in> set post. f ?m \<le> f r"
    by auto
  show ?case
  proof (cases "f x \<le> f ?m")
    case True
    have "\<forall>r \<in> set (y # zs). f x \<le> f r"
    proof
      fix r assume "r \<in> set (y # zs)"
      with split have "r \<in> set pre \<or> r = ?m \<or> r \<in> set post" by (metis Un_iff set_ConsD set_append)
      with pre post True show "f x \<le> f r" by force
    qed
    with True show ?thesis
      by (intro exI [of _ "[]"] exI [of _ "y # zs"]) (simp add: Let_def)
  next
    case False
    with split pre post show ?thesis
      by (intro exI [of _ "x # pre"] exI [of _ post]) (simp add: Let_def)
  qed
next
  case (3 f)
  then show ?case by simp
qed

lemma distinct_get_dict_values_combinations:
  "\<forall>p \<in> set ss. distinct (snd p) \<Longrightarrow> distinct (get_dict_values_combinations ss)"
proof (induction ss)
  case Nil
  then show ?case by simp
next
  case (Cons p ss)
  obtain k vs where p: "p = (k, vs)" by (cases p)
  from Cons have rec: "distinct (get_dict_values_combinations ss)" by simp
  from Cons.prems p have "distinct vs" by simp
  then have "distinct (concat (map (\<lambda>v. map (\<lambda>c. (k, v) # c) (get_dict_values_combinations ss)) vs))"
  proof (induction vs)
    case Nil
    then show ?case by simp
  next
    case (Cons v vs)
    have "distinct (map (\<lambda>c. (k, v) # c) (get_dict_values_combinations ss))"
      using rec by (simp add: distinct_map inj_on_def)
    with Cons show ?case by auto
  qed
  with p show ?case by simp
qed

text \<open>
  C1. Let the calibrator have a validator whose configuration exposes a search space with
  a non-empty candidate list for every parameter, and let every evaluation return a score.
  Then \<open>GridSearchCalibrator.run\<close> evaluates the combinations of the full cartesian
  product, whose number is the product of the lengths of the candidate lists, one after
  the other in enumeration order, each position of the enumeration once (and so each
  combination once when no candidate list repeats a value), and returns the pair of score
  and combination that comes first among those of the lowest score.
\<close>

theorem grid_search_returns_first_minimum:
  assumes "validator self = Some v"
    and "config_get_search_space v = Inr (Some search_space)"
    and "\<forall>p \<in> set search_space. snd p \<noteq> []"
    and "\<forall>c \<in> set (get_dict_values_combinations search_space).
           \<not> isl (fst (evaluate_combination self c []))"
  shows "\<exists>best pre post.
           GridSearchCalibrator_run self tr
             = (Inr best,
                tr @ Starting (length (get_dict_values_combinations search_space))
                     # map Considering (get_dict_values_combinations search_space))
         \<and> length (get_dict_values_combinations search_space)
             = prod_list (map (\<lambda>p. length (snd p)) search_space)
         \<and> (\<forall>c. c \<in> set (get_dict_values_combinations search_space)
                 \<longleftrightarrow> is_combination search_space c)
         \<and> ((\<forall>p \<in> set search_space. distinct (snd p))
               \<longrightarrow> distinct (get_dict_values_combinations search_space))
         \<and> map (\<lambda>c. (score_of self c, c)) (get_dict_values_combinations search_space)
             = pre @ best # post
         \<and> (\<forall>r \<in> set pre. fst best < fst r)
         \<and> (\<forall>r \<in> set post. fst best \<le> fst r)"
proof -
  let ?combos = "get_dict_values_combinations search_space"
  let ?results = "map (\<lambda>c. (score_of self c, c)) ?combos"
  let ?best = "arg_min_list fst ?results"
  have ne: "?results \<noteq> []"
    using get_dict_values_combinations_nonempty [OF assms(3)] by simp
  have loop: "calibration_loop self ?combos [] (tr @ [Starting (length ?combos)])
                = (Inr ?results, (tr @ [Starting (length ?combos)]) @ map Considering ?combos)"
    using calibration_loop_all [OF assms(4), of "[]"] by simp
  have "sort_key fst ?results \<noteq> []"
    using ne length_sort [of fst ?results] by (metis length_0_conv)
  then obtain rest where sorted: "sort_key fst ?results = hd (sort_key fst ?results) # rest"
    by (cases "sort_key fst ?results") simp_all
  have hd: "hd (sort_key fst ?results) = ?best"
    using ne by (rule hd_sort_key_arg_min)
  have run: "GridSearchCalibrator_run self tr
               = (Inr ?best, tr @ Starting (length ?combos) # map Considering ?combos)"
    unfolding GridSearchCalibrator_run_def
    using assms(1,2) loop sorted hd
    by (simp add: Let_def split: list.splits)
  from arg_min_list_first [OF ne, of fst]
  obtain pre post where "?results = pre @ ?best # post"
    and "\<forall>r \<in> set pre. fst ?best < fst r" and "\<forall>r \<in> set post. fst ?best \<le> fst r"
    by blast
  with run show ?thesis
    using length_get_dict_values_combinations [of search_space]
      set_get_dict_values_combinations [of _ search_space]
      distinct_get_dict_values_combinations [of search_space]
    by blast
qed

theorem grid_search_returns_first_minimum_witness:
  "GridSearchCalibrator_run example_calibrator []
     = (Inr (0, [(''width'', PyInt 2), (''depth'', PyInt 5)]),
        [Starting 6,
         Considering [(''width'', PyInt 1), (''depth'', PyInt 5)],
         Considering [(''width'', PyInt 1), (''depth'', PyInt 4)],
         Considering [(''width'', PyInt 2), (''depth'', PyInt 5)],
         Considering [(''width'', PyInt 2), (''depth'', PyInt 4)],
         Considering [(''width'', PyInt 3), (''depth'', PyInt 5)],
         Considering [(''width'', PyInt 3), (''depth'', PyInt 4)]])"
proof -
  let ?space = "[(''width'', [PyInt 1, PyInt 2, PyInt 3]), (''depth'', [PyInt 5, PyInt 4])]"
  have ev: "\<And>a b. evaluate_combination example_calibrator
                      [(''width'', PyInt a), (''depth'', PyInt b)] []
                  = (Inr (real_of_int ((a - 2) * (a - 2))),
                     [Considering [(''width'', PyInt a), (''depth'', PyInt b)]])"
    by (simp add: evaluate_combination_def example_calibrator_def example_validator_def)
  have h1: "validator example_calibrator = Some example_validator"
    by (simp add: example_calibrator_def)
  have h2: "config_get_search_space example_validator = Inr (Some ?space)"
    by (simp add: example_validator_def)
  have h3: "\<forall>p \<in> set ?space. snd p \<noteq> []"
    by simp
  have h4: "\<forall>c \<in> set (get_dict_values_combinations ?space).
              \<not> isl (fst (evaluate_combination example_calibrator c []))"
    by (simp add: ev)
  have sc: "\<And>a b. score_of example_calibrator [(''width'', PyInt a), (''depth'', PyInt b)]
                  = real_of_int ((a - 2) * (a - 2))"
    by (simp add: score_of_def ev)
  from grid_search_returns_first_minimum [OF h1 h2 h3 h4, of "[]"]
  obtain best pre post where
    run: "GridSearchCalibrator_run example_calibrator []
            = (Inr best,
               Starting (length (get_dict_values_combinations ?space))
                 # map Considering (get_dict_values_combinations ?space))"
    and split: "map (\<lambda>c. (score_of example_calibrator c, c)) (get_dict_values_combinations ?space)
                  = pre @ best # post"
    and pre: "\<forall>r \<in> set pre. fst best < fst r"
    and post: "\<forall>r \<in> set post. fst best \<le> fst r"
    by auto
  have loop: "calibration_loop example_calibrator
                [[(''width'', PyInt 1), (''depth'', PyInt 5)],
                 [(''width'', PyInt 1), (''depth'', PyInt 4)],
                 [(''width'', PyInt 2), (''depth'', PyInt 5)],
                 [(''width'', PyInt 2), (''depth'', PyInt 4)],
                 [(''width'', PyInt 3), (''depth'', PyInt 5)],
                 [(''width'', PyInt 3), (''depth'', PyInt 4)]] [] tr
          = (Inr [(1, [(''width'', PyInt 1), (''depth'', PyInt 5)]),
                  (1, [(''width'', PyInt 1), (''depth'', PyInt 4)]),
                  (0, [(''width'', PyInt 2), (''depth'', PyInt 5)]),
                  (0, [(''width'', PyInt 2), (''depth'', PyInt 4)]),
                  (1, [(''width'', PyInt 3), (''depth'', PyInt 5)]),
                  (1, [(''width'', PyInt 3), (''depth'', PyInt 4)])],
             tr @
             [Considering [(''width'', PyInt 1), (''depth'', PyInt 5)],
              Considering [(''width'', PyInt 1), (''depth'', PyInt 4)],
              Considering [(''width'', PyInt 2), (''depth'', PyInt 5)],
              Considering [(''width'', PyInt 2), (''depth'', PyInt 4)],
              Considering [(''width'', PyInt 3), (''depth'', PyInt 5)],
              Considering [(''width'', PyInt 3), (''depth'', PyInt 4)]])" for tr
    using calibration_loop_all [OF h4, of "[]" tr] by (simp add: sc)
  have "GridSearchCalibrator_run example_calibrator []
          = (Inr (0, [(''width'', PyInt 2), (''depth'', PyInt 5)]),
             [Starting 6,
              Considering [(''width'', PyInt 1), (''depth'', PyInt 5)],
              Considering [(''width'', PyInt 1), (''depth'', PyInt 4)],
              Considering [(''width'', PyInt 2), (''depth'', PyInt 5)],
              Considering [(''width'', PyInt 2), (''depth'', PyInt 4)],
              Considering [(''width'', PyInt 3), (''depth'', PyInt 5)],
              Considering [(''width'', PyInt 3), (''depth'', PyInt 4)]])"
    unfolding GridSearchCalibrator_run_def
    by (simp add: h1 h2 Let_def loop del: calibration_loop.simps)
  with run show ?thesis by simp
qed

subsection \<open>Callbacks: what a dispatch adds to the events\<close>

lemma call_attribute_trace:
  "call_attribute self h a logs tr
     = (fst (call_attribute self h a logs []), tr @ snd (call_attribute self h a logs []))"
  by (cases a) (simp_all add: call_attribute_def split: option.splits)

lemma Callback_run_trace:
  "Callback_run self hookpoint logs tr
     = (fst (Callback_run self hookpoint logs []), tr @ snd (Callback_run self hookpoint logs []))"
proof (cases hookpoint)
  case None
  then show ?thesis by (simp add: Callback_run_def)
next
  case (Some h)
  show ?thesis
  proof (cases "Callback_getattr self h")
    case None
    with Some show ?thesis by (simp add: Callback_run_def)
  next
    case (Some a)
    with \<open>hookpoint = Some h\<close> show ?thesis
      using call_attribute_trace [of self h a logs tr] by (simp add: Callback_run_def)
  qed
qed

lemma run_callbacks_trace:
  "run_callbacks cbs hookpoint logs tr
     = (fst (run_callbacks cbs hookpoint logs []), tr @ snd (run_callbacks cbs hookpoint logs []))"
proof (induction cbs arbitrary: tr)
  case Nil
  then show ?case by simp
next
  case (Cons cb cbs)
  obtain r evs where first: "Callback_run cb hookpoint logs [] = (r, evs)"
    by (cases "Callback_run cb hookpoint logs []")
  then have at_tr: "Callback_run cb hookpoint logs tr = (r, tr @ evs)"
    using Callback_run_trace [of cb hookpoint logs tr] by simp
  show ?case
  proof (cases r)
    case (Inl e)
    with first at_tr show ?thesis by simp
  next
    case (Inr u)
    with first at_tr show ?thesis
      using Cons.IH [of "tr @ evs"] Cons.IH [of evs] by simp
  qed
qed

lemma CallbackPipeline_run_trace:
  "CallbackPipeline_run p hookpoint logs tr
     = (fst (CallbackPipeline_run p hookpoint logs []),
        tr @ snd (CallbackPipeline_run p hookpoint logs []))"
  unfolding CallbackPipeline_run_def by (rule run_callbacks_trace)

lemma Callback_run_events:
  "e \<in> set (snd (Callback_run self hookpoint logs [])) \<Longrightarrow>
     \<exists>h. hookpoint = Some h \<and> e = Invoked (label self) h logs"
  by (auto simp: Callback_run_def call_attribute_def
      split: option.splits attribute.splits)

lemma run_callbacks_events:
  "e \<in> set (snd (run_callbacks cbs hookpoint logs [])) \<Longrightarrow>
     \<exists>cb h. cb \<in> set cbs \<and> hookpoint = Some h \<and> e = Invoked (label cb) h logs"
proof (induction cbs)
  case Nil
  then show ?case by simp
next
  case (Cons cb cbs)
  obtain r evs where first: "Callback_run cb hookpoint logs [] = (r, evs)"
    by (cases "Callback_run cb hookpoint logs []")
  show ?case
  proof (cases r)
    case (Inl err)
    with first Cons.prems have "e \<in> set (snd (Callback_run cb hookpoint logs []))" by simp
    from Callback_run_events [OF this] show ?thesis by auto
  next
    case (Inr u)
    with first Cons.prems have "e \<in> set (snd (run_callbacks cbs hookpoint logs evs))" by simp
    then have "e \<in> set evs \<or> e \<in> set (snd (run_callbacks cbs hookpoint logs []))"
      using run_callbacks_trace [of cbs hookpoint logs evs] by auto
    then show ?thesis
    proof
      assume "e \<in> set evs"
      with first have "e \<in> set (snd (Callback_run cb hookpoint logs []))" by simp
      from Callback_run_events [OF this] show ?thesis by auto
    next
      assume "e \<in> set (snd (run_callbacks cbs hookpoint logs []))"
      from Cons.IH [OF this] show ?thesis by auto
    qed
  qed
qed

lemma fire_callbacks:
  assumes "\<not> isl (fst (CallbackPipeline_run p (Some h) logs []))"
  shows "fire (ObjCallbacks p) h logs tr
           = (Inr (), tr @ Fired h logs # snd (CallbackPipeline_run p (Some h) logs []))"
proof -
  from assms have "fst (CallbackPipeline_run p (Some h) logs []) = Inr ()"
    by (cases "fst (CallbackPipeline_run p (Some h) logs [])") simp_all
  then show ?thesis
    using CallbackPipeline_run_trace [of p "Some h" logs "tr @ [Fired h logs]"]
    by (simp add: fire_def)
qed

subsection \<open>C3: the hookpoint guard\<close>

text \<open>
  C3. Wrap any function with the hookpoint guard for the base hookpoint \<open>H\<close>. Called
  without a callbacks entry among the keyword arguments (or with the entry \<open>None\<close>), the
  wrapped call returns what the function returns and adds no event to those of the
  function. Called with a callbacks pipeline under that key, where the function returns
  and no handler raises, the wrapped call fires \<open>H_begin\<close> once, with no logs, before the
  function runs on the original arguments, fires \<open>H_end\<close> once afterwards with the value
  the function returned as logs, and returns that value; apart from these two firings
  and the events of the function, the only events are the invocations of the handlers.
\<close>

theorem hookpoint_guard_fires_around:
  "((kwargs ''callbacks'' = None \<or> kwargs ''callbacks'' = Some ObjNone) \<longrightarrow>
      hookpoint_guard func H args kwargs tr
        = (fst (func args kwargs), tr @ snd (func args kwargs)))
   \<and> (kwargs ''callbacks'' = Some (ObjCallbacks p)
        \<and> \<not> isl (fst (CallbackPipeline_run p (Some (H @ ''_begin'')) PyNone []))
        \<and> func args kwargs = (Inr res, evs)
        \<and> \<not> isl (fst (CallbackPipeline_run p (Some (H @ ''_end'')) res []))
      \<longrightarrow>
        hookpoint_guard func H args kwargs tr
          = (Inr res,
             tr @ Fired (H @ ''_begin'') PyNone
                  # snd (CallbackPipeline_run p (Some (H @ ''_begin'')) PyNone [])
                @ evs
                @ Fired (H @ ''_end'') res
                  # snd (CallbackPipeline_run p (Some (H @ ''_end'')) res [])
            )
        \<and> (\<forall>e \<in> set (snd (CallbackPipeline_run p (Some (H @ ''_begin'')) PyNone [])
                        @ snd (CallbackPipeline_run p (Some (H @ ''_end'')) res [])).
              \<exists>l h v. e = Invoked l h v))"
proof (intro conjI impI)
  assume "kwargs ''callbacks'' = None \<or> kwargs ''callbacks'' = Some ObjNone"
  then show "hookpoint_guard func H args kwargs tr
               = (fst (func args kwargs), tr @ snd (func args kwargs))"
    by (cases "func args kwargs"; cases "fst (func args kwargs)")
      (auto simp: hookpoint_guard_def Let_def)
next
  assume a: "kwargs ''callbacks'' = Some (ObjCallbacks p)
        \<and> \<not> isl (fst (CallbackPipeline_run p (Some (H @ ''_begin'')) PyNone []))
        \<and> func args kwargs = (Inr res, evs)
        \<and> \<not> isl (fst (CallbackPipeline_run p (Some (H @ ''_end'')) res []))"
  then show "hookpoint_guard func H args kwargs tr
          = (Inr res,
             tr @ Fired (H @ ''_begin'') PyNone
                  # snd (CallbackPipeline_run p (Some (H @ ''_begin'')) PyNone [])
                @ evs
                @ Fired (H @ ''_end'') res
                  # snd (CallbackPipeline_run p (Some (H @ ''_end'')) res []))"
    by (simp add: hookpoint_guard_def Let_def fire_callbacks)
next
  assume a: "kwargs ''callbacks'' = Some (ObjCallbacks p)
        \<and> \<not> isl (fst (CallbackPipeline_run p (Some (H @ ''_begin'')) PyNone []))
        \<and> func args kwargs = (Inr res, evs)
        \<and> \<not> isl (fst (CallbackPipeline_run p (Some (H @ ''_end'')) res []))"
  show "\<forall>e \<in> set (snd (CallbackPipeline_run p (Some (H @ ''_begin'')) PyNone [])
                        @ snd (CallbackPipeline_run p (Some (H @ ''_end'')) res [])).
              \<exists>l h v. e = Invoked l h v"
    unfolding CallbackPipeline_run_def
    using run_callbacks_events by fastforce
qed

lemma example_pipeline_begin:
  "CallbackPipeline_run example_pipeline (Some ''on_fit_begin'') logs []
     = (Inr (), [Invoked ''logger'' ''on_fit_begin'' logs])"
  by (simp add: CallbackPipeline_run_def example_pipeline_def example_silent_def
      example_logger_def Callback_init_def Callback_run_def Callback_getattr_def
      call_attribute_def)

lemma example_pipeline_end:
  "CallbackPipeline_run example_pipeline (Some ''on_fit_end'') logs []
     = (Inr (), [Invoked ''logger'' ''on_fit_end'' logs])"
  by (simp add: CallbackPipeline_run_def example_pipeline_def example_silent_def
      example_logger_def Callback_init_def Callback_run_def Callback_getattr_def
      call_attribute_def)

theorem hookpoint_guard_fires_around_witness:
  "hookpoint_guard example_fit ''on_fit'' [] Map.empty [] = (Inr (PyInt 7), [Ran ''fit''])
   \<and> hookpoint_guard example_fit ''on_fit'' []
        [''callbacks'' \<mapsto> ObjCallbacks example_pipeline] []
       = (Inr (PyInt 7),
          [Fired ''on_fit_begin'' PyNone, Invoked ''logger'' ''on_fit_begin'' PyNone,
           Ran ''fit'',
           Fired ''on_fit_end'' (PyInt 7), Invoked ''logger'' ''on_fit_end'' (PyInt 7)])"
  using hookpoint_guard_fires_around
          [of Map.empty example_fit "''on_fit''" "[]" "[]" example_pipeline "PyInt 7" "[Ran ''fit'']"]
        hookpoint_guard_fires_around
          [of "[''callbacks'' \<mapsto> ObjCallbacks example_pipeline]" example_fit "''on_fit''" "[]" "[]"
              example_pipeline "PyInt 7" "[Ran ''fit'']"]
  by (simp add: example_fit_def example_pipeline_begin example_pipeline_end)

subsection \<open>C10: a wrapped function that raises\<close>

text \<open>
  C10. Wrap any function with the hookpoint guard for the base hookpoint \<open>H\<close> and call it
  with a callbacks pipeline among the keyword arguments, where no handler of \<open>H_begin\<close>
  raises. If the function raises, the wrapped call raises the same exception; \<open>H_begin\<close>
  has been fired before the function ran, and the wrapper adds no event after those of
  the function: \<open>H_end\<close> is not fired.
\<close>

theorem hookpoint_guard_exception_skips_end:
  assumes "kwargs ''callbacks'' = Some (ObjCallbacks p)"
    and "\<not> isl (fst (CallbackPipeline_run p (Some (H @ ''_begin'')) PyNone []))"
    and "func args kwargs = (Inl e, evs)"
  shows "hookpoint_guard func H args kwargs tr
           = (Inl e,
              tr @ Fired (H @ ''_begin'') PyNone
                   # snd (CallbackPipeline_run p (Some (H @ ''_begin'')) PyNone [])
                 @ evs)
         \<and> (\<forall>logs. Fired (H @ ''_end'') logs
               \<notin> set (Fired (H @ ''_begin'') PyNone
                       # snd (CallbackPipeline_run p (Some (H @ ''_begin'')) PyNone [])))"
proof
  show "hookpoint_guard func H args kwargs tr
           = (Inl e,
              tr @ Fired (H @ ''_begin'') PyNone
                   # snd (CallbackPipeline_run p (Some (H @ ''_begin'')) PyNone [])
                 @ evs)"
    using assms by (simp add: hookpoint_guard_def Let_def fire_callbacks)
  show "\<forall>logs. Fired (H @ ''_end'') logs
               \<notin> set (Fired (H @ ''_begin'') PyNone
                       # snd (CallbackPipeline_run p (Some (H @ ''_begin'')) PyNone []))"
    unfolding CallbackPipeline_run_def
    using run_callbacks_events by fastforce
qed

theorem hookpoint_guard_exception_skips_end_witness:
  "hookpoint_guard example_failing_fit ''on_fit'' []
        [''callbacks'' \<mapsto> ObjCallbacks example_pipeline] []
     = (Inl (Raised ''ValueError''),
        [Fired ''on_fit_begin'' PyNone, Invoked ''logger'' ''on_fit_begin'' PyNone, Ran ''fit''])"
  using hookpoint_guard_exception_skips_end
          [of "[''callbacks'' \<mapsto> ObjCallbacks example_pipeline]" example_pipeline "''on_fit''"
              example_failing_fit "[]" "Raised ''ValueError''" "[Ran ''fit'']" "[]"]
  by (simp add: example_failing_fit_def example_pipeline_begin)

subsection \<open>C9: dispatch of a hookpoint by name\<close>

lemma Callback_run_without_attribute:
  "Callback_getattr self h = None \<Longrightarrow> Callback_run self (Some h) logs tr = (Inr (), tr)"
  by (simp add: Callback_run_def)

lemma Callback_run_with_handler:
  "Callback_getattr self h = Some (Handler outcome) \<Longrightarrow> outcome logs = None \<Longrightarrow>
     Callback_run self (Some h) logs tr = (Inr (), tr @ [Invoked (label self) h logs])"
  by (simp add: Callback_run_def call_attribute_def)

lemma run_callbacks_example:
  "run_callbacks [example_silent, example_logger, example_silent] (Some ''on_fit_end'') logs []
     = (Inr (), [Invoked ''logger'' ''on_fit_end'' logs])"
  by (simp add: example_silent_def example_logger_def Callback_init_def Callback_run_def
      Callback_getattr_def call_attribute_def)

text \<open>
  C9. The claim holds for a hookpoint name under which the callback has no attribute at
  all (\<open>Callback_run_without_attribute\<close>) and for a handler (\<open>Callback_run_with_handler\<close>),
  but \<open>Callback.run\<close> raises \<open>TypeError\<close> in the two cases the claim includes by name: with
  the default hookpoint \<open>None\<close>, and with the name of an attribute that is no handler,
  such as \<open>save_path\<close>, on a callback with no handler at all.
\<close>

theorem Callback_run_raises_without_handler:
  "Callback_run example_silent None PyNone [] = (Inl TypeError, [])
   \<and> Callback_run example_silent (Some ''save_path'') PyNone [] = (Inl TypeError, [])"
  by (simp add: example_silent_def Callback_init_def Callback_run_def Callback_getattr_def
      call_attribute_def)

subsection \<open>C6: the flat search space of nested tunable configurations\<close>

lemma map_of_dict_set: "map_of (dict_set k v xs) = (map_of xs)(k \<mapsto> v)"
  by (induction xs) auto

lemma last_wins_append: "last_wins (xs @ ys) = last_wins xs ++ last_wins ys"
  by (simp add: last_wins_def)

lemma last_wins_Cons: "m ++ last_wins ((k, v) # xs) = m(k \<mapsto> v) ++ last_wins xs"
proof -
  have "last_wins ((k, v) # xs) = [k \<mapsto> v] ++ last_wins xs"
    using last_wins_append [of "[(k, v)]" xs] by (simp add: last_wins_def)
  then show ?thesis by simp
qed

lemma map_of_dict_merge: "map_of (dict_merge b xs) = map_of b ++ last_wins xs"
proof (induction xs arbitrary: b)
  case Nil
  then show ?case by (simp add: dict_merge_def last_wins_def)
next
  case (Cons x xs)
  obtain k v where x: "x = (k, v)" by (cases x)
  have "dict_merge b (x # xs) = dict_merge (dict_set k v b) xs"
    by (simp add: dict_merge_def x)
  then have "map_of (dict_merge b (x # xs)) = map_of (dict_set k v b) ++ last_wins xs"
    using Cons [of "dict_set k v b"] by simp
  also have "\<dots> = (map_of b)(k \<mapsto> v) ++ last_wins xs"
    by (simp only: map_of_dict_set)
  also have "\<dots> = map_of b ++ last_wins (x # xs)"
    by (simp only: x last_wins_Cons)
  finally show ?case .
qed

lemma dict_set_keys: "fst ` set (dict_set k v xs) = insert k (fst ` set xs)"
proof (induction xs)
  case Nil
  then show ?case by simp
next
  case (Cons x xs)
  obtain k' v' where x: "x = (k', v')" by (cases x)
  show ?case
  proof (cases "k' = k")
    case True
    then show ?thesis using x by simp
  next
    case False
    then show ?thesis using x Cons by (simp add: insert_commute)
  qed
qed

lemma dict_set_distinct: "distinct (map fst xs) \<Longrightarrow> distinct (map fst (dict_set k v xs))"
  by (induction xs) (auto simp: dict_set_keys)

lemma dict_merge_distinct:
  "distinct (map fst b) \<Longrightarrow> distinct (map fst (dict_merge b xs))"
proof (induction xs arbitrary: b)
  case Nil
  then show ?case by (simp add: dict_merge_def)
next
  case (Cons x xs)
  obtain k v where x: "x = (k, v)" by (cases x)
  have "dict_merge b (x # xs) = dict_merge (dict_set k v b) xs"
    by (simp add: dict_merge_def x)
  with Cons.IH [OF dict_set_distinct [OF Cons.prems, of k v]] show ?case by simp
qed

lemma last_wins_distinct: "distinct (map fst xs) \<Longrightarrow> last_wins xs = map_of xs"
  unfolding last_wins_def by (rule map_of_inject_set [THEN iffD2]) (simp_all add: distinct_rev rev_map [symmetric])

lemma last_wins_dict_merge_Nil: "last_wins (dict_merge [] xs) = last_wins xs"
proof -
  have "distinct (map fst (dict_merge [] xs))"
    by (rule dict_merge_distinct) simp
  then have "last_wins (dict_merge [] xs) = map_of (dict_merge [] xs)"
    by (rule last_wins_distinct)
  then show ?thesis by (simp add: map_of_dict_merge)
qed

lemma get_search_space_flat:
  "all_tunable (c :: 'v config_class) \<Longrightarrow>
     \<exists>r. get_search_space c buffer parent_key = Inr r
       \<and> map_of r = map_of (case buffer of Some b \<Rightarrow> b | None \<Rightarrow> [])
                      ++ last_wins (flat_entries c parent_key)"
  and search_children_flat:
  "all_tunable_children (cs :: (string \<times> 'v config_class) list) \<Longrightarrow>
     \<exists>r. search_children cs buf parent_key = Inr r
       \<and> map_of r = map_of buf ++ last_wins (flat_children cs parent_key)"
proof (induction c buffer parent_key and cs buf parent_key
    rule: get_search_space_search_children.induct)
  case (1 calibration_config children buffer parent_key)
  then obtain search_space where cal: "calibration_config = Some search_space"
    and kids: "all_tunable_children children" by auto
  let ?b = "case buffer of Some b \<Rightarrow> b | None \<Rightarrow> []"
  from 1(1) [OF refl cal kids]
  obtain r where r: "search_children children ?b parent_key = Inr r"
    and mr: "map_of r = map_of ?b ++ last_wins (flat_children children parent_key)"
    by auto
  let ?own = "map (\<lambda>(k, v). (dotted parent_key k, v)) search_space"
  have "get_search_space (TunableConfiguration calibration_config children) buffer parent_key
          = Inr (dict_merge r (dict_merge [] ?own))"
    using cal r by simp
  moreover have "map_of (dict_merge r (dict_merge [] ?own))
          = map_of ?b ++ last_wins (flat_children children parent_key @ ?own)"
    by (simp add: map_of_dict_merge last_wins_dict_merge_Nil mr last_wins_append)
  ultimately show ?case using cal by simp
next
  case (2 class_type buffer parent_key)
  then show ?case by simp
next
  case (3 buffer parent_key)
  then show ?case by (simp add: last_wins_def)
next
  case (4 child_name class_type rest buffer parent_key)
  then show ?case by simp
next
  case (5 child_name calibration_config children rest buffer parent_key)
  let ?child = "TunableConfiguration calibration_config children"
  from 5(3) have ct: "all_tunable ?child" and rt: "all_tunable_children rest" by simp_all
  from 5(1) [OF ct]
  obtain r1 where r1: "get_search_space ?child (Some buffer) (Some (dotted parent_key child_name)) = Inr r1"
    and m1: "map_of r1 = map_of buffer
               ++ last_wins (flat_entries ?child (Some (dotted parent_key child_name)))"
    by auto
  from 5(2) [OF r1 rt]
  obtain r2 where r2: "search_children rest r1 parent_key = Inr r2"
    and m2: "map_of r2 = map_of r1 ++ last_wins (flat_children rest parent_key)"
    by auto
  have "search_children ((child_name, ?child) # rest) buffer parent_key = Inr r2"
    using r1 r2 by simp
  moreover have "map_of r2 = map_of buffer
                   ++ last_wins (flat_children ((child_name, ?child) # rest) parent_key)"
    using m1 m2 by (simp add: last_wins_append)
  ultimately show ?case by blast
qed

lemma get_search_space_two_levels_same_key:
  "get_search_space
     (TunableConfiguration (Some [(child_name @ ''.'' @ k2, v1)])
        [(child_name, TunableConfiguration (Some [(k2, v2)]) [])]) None None
     = Inr [(child_name @ ''.'' @ k2, v1)]"
  by (simp add: dict_merge_def dotted_def)

text \<open>
  C6. Take a tunable configuration in which every configuration reached through
  registration parameters (other than \<open>calibration_config\<close>) is tunable and has its
  calibration configuration set. Then \<open>get_search_space\<close> returns one flat mapping: the
  given buffer, overwritten by the entries of every child under keys prefixed with the
  dot-joined path of field names, and then by the configuration's own entries at its own
  prefix, a later entry replacing an earlier one of the same dotted key. For a root with
  one entry and one child with one entry the result has exactly two keys, the root's own
  and the child's prefixed by the name of the child's field, as long as these two keys
  differ (a root entry named like the dotted key of the child's entry overwrites it).
\<close>

theorem get_search_space_flattens:
  "(all_tunable c \<longrightarrow>
      (\<exists>r. get_search_space c buffer parent_key = Inr r
         \<and> map_of r = map_of (case buffer of Some b \<Rightarrow> b | None \<Rightarrow> [])
                        ++ last_wins (flat_entries c parent_key)))
   \<and> (k1 \<noteq> child_name @ ''.'' @ k2 \<longrightarrow>
        get_search_space
          (TunableConfiguration (Some [(k1, v1)])
             [(child_name, TunableConfiguration (Some [(k2, v2)]) [])]) None None
          = Inr [(child_name @ ''.'' @ k2, v2), (k1, v1)])"
proof (intro conjI impI)
  assume "all_tunable c"
  then show "\<exists>r. get_search_space c buffer parent_key = Inr r
         \<and> map_of r = map_of (case buffer of Some b \<Rightarrow> b | None \<Rightarrow> [])
                        ++ last_wins (flat_entries c parent_key)"
    by (rule get_search_space_flat)
next
  assume "k1 \<noteq> child_name @ ''.'' @ k2"
  then show "get_search_space
          (TunableConfiguration (Some [(k1, v1)])
             [(child_name, TunableConfiguration (Some [(k2, v2)]) [])]) None None
          = Inr [(child_name @ ''.'' @ k2, v2), (k1, v1)]"
    by (auto simp: dict_merge_def dotted_def)
qed

theorem get_search_space_flattens_witness:
  "get_search_space
     (TunableConfiguration (Some [(''lr'', [PyInt 1, PyInt 2])])
        [(''model'', TunableConfiguration (Some [(''depth'', [PyInt 3])]) [])]) None None
     = Inr [(''model.depth'', [PyInt 3]), (''lr'', [PyInt 1, PyInt 2])]
   \<and> (\<exists>r. get_search_space
        (TunableConfiguration (Some [(''lr'', [PyInt 1, PyInt 2])])
           [(''model'',
             TunableConfiguration (Some [(''depth'', [PyInt 3])])
               [(''encoder'', TunableConfiguration (Some [(''width'', [PyInt 8])]) [])])])
        None None = Inr r
       \<and> map_of r = [''model.encoder.width'' \<mapsto> [PyInt 8], ''model.depth'' \<mapsto> [PyInt 3],
                      ''lr'' \<mapsto> [PyInt 1, PyInt 2]])"
  using get_search_space_flattens
    [of "TunableConfiguration (Some [(''lr'', [PyInt 1, PyInt 2])])
           [(''model'',
             TunableConfiguration (Some [(''depth'', [PyInt 3])])
               [(''encoder'', TunableConfiguration (Some [(''width'', [PyInt 8])]) [])])]"
        None None "''lr''" "''model''" "''depth''" "[PyInt 1, PyInt 2]" "[PyInt 3]"]
  by (simp add: dotted_def last_wins_def)

subsection \<open>C8: the final path of a run exists already\<close>

lemma finalize_run_replacement_exists:
  assumes "run_name \<noteq> None" and "serialization_path \<in> existing w"
    and "runs_registry w serialization_path = Some replacement_path"
    and "replacement_path \<in> existing w"
  shows "finalize_run key run_name serialization_path w
           = Inr (w \<lparr> log_entries := log_entries w @ [(WARNING, ReplacementExists replacement_path)],
                      tracked_runs := tracked_runs w @ [(key, serialization_path)] \<rparr>)"
  using assms by (simp add: finalize_run_def logger_def track_run_def)

lemma finalize_run_renames:
  assumes "run_name \<noteq> None" and "serialization_path \<in> existing w"
    and "runs_registry w serialization_path = Some replacement_path"
    and "replacement_path \<notin> existing w"
  shows "finalize_run key run_name serialization_path w
           = Inr (w \<lparr> existing := insert replacement_path (existing w - {serialization_path}),
                      log_entries := log_entries w @ [(INFO, Renaming replacement_path replacement_path)],
                      tracked_runs := tracked_runs w @ [(key, replacement_path)] \<rparr>)"
  using assms by (simp add: finalize_run_def logger_def track_run_def rename_def)

text \<open>
  C8. Let \<open>run_component_from_key\<close> be called with a run name, and let building the
  component, allocating the temporary run path, running and (when asked) saving the
  component succeed. If then the temporary path exists and the final path recorded for it
  exists as well, the call succeeds and changes the state the component left in two
  places only: one entry is added to the log, the warning that the replacement path
  exists, and the manager is told to track the key at the temporary path. The paths on
  disk are as the component left them: nothing is renamed.
\<close>

theorem run_component_from_key_keeps_temporary_path:
  assumes "build_component_from_key env key = Inr c"
    and "register_temporary_run_name env (Some name) serialize
           (logger INFO (RetrievingComponent key) w) = Inr (temporary, w2)"
    and "component_run c
           (if accepts_serialization_path c
            then dict_set ''serialization_path'' (ArgPath temporary)
                   (case run_args of Some a \<Rightarrow> a | None \<Rightarrow> [])
            else (case run_args of Some a \<Rightarrow> a | None \<Rightarrow> []))
           (w2 \<lparr> log_target := Some (joinpath temporary (logging_filename env)) \<rparr>) = Inr w4"
    and "(if serialize
          then component_save c temporary (logger INFO (SerializingTo temporary) w4)
          else Inr w4) = Inr w5"
    and "temporary \<in> existing w5"
    and "runs_registry w5 temporary = Some final"
    and "final \<in> existing w5"
  shows "run_component_from_key env key serialize (Some name) run_args w
           = Inr (w5 \<lparr> log_entries := log_entries w5 @ [(WARNING, ReplacementExists final)],
                       tracked_runs := tracked_runs w5 @ [(key, temporary)] \<rparr>)"
proof -
  have "finalize_run key (Some name) temporary w5
          = Inr (w5 \<lparr> log_entries := log_entries w5 @ [(WARNING, ReplacementExists final)],
                      tracked_runs := tracked_runs w5 @ [(key, temporary)] \<rparr>)"
    using assms(5-7) by (intro finalize_run_replacement_exists) simp_all
  then show ?thesis
    using assms(1-4) by (simp add: run_component_from_key_def Let_def)
qed

theorem run_component_from_key_keeps_temporary_path_witness:
  "(case run_component_from_key example_environment example_key True (Some ''best'') None
           example_world of
      Inl e \<Rightarrow> False
    | Inr w' \<Rightarrow>
        existing w' = {''runs/tmp_1'', ''runs/best''}
        \<and> log_entries w'
            = [(INFO, RetrievingComponent example_key), (INFO, SerializingTo ''runs/tmp_1''),
               (WARNING, ReplacementExists ''runs/best'')]
        \<and> tracked_runs w' = [(example_key, ''runs/tmp_1'')])"
proof -
  let ?w2 = "example_world
               \<lparr> existing := {''runs/tmp_1'', ''runs/best''},
                 log_entries := [(INFO, RetrievingComponent example_key)],
                 runs_registry := [''runs/tmp_1'' \<mapsto> ''runs/best''] \<rparr>"
  let ?w4 = "?w2 \<lparr> log_target := Some ''runs/tmp_1/log.txt'' \<rparr>"
  let ?w5 = "?w4 \<lparr> log_entries := [(INFO, RetrievingComponent example_key),
                                      (INFO, SerializingTo ''runs/tmp_1'')] \<rparr>"
  have "run_component_from_key example_environment example_key True (Some ''best'') None
          example_world
          = Inr (?w5 \<lparr> log_entries := log_entries ?w5 @ [(WARNING, ReplacementExists ''runs/best'')],
                        tracked_runs := tracked_runs ?w5 @ [(example_key, ''runs/tmp_1'')] \<rparr>)"
    by (rule run_component_from_key_keeps_temporary_path
          [where c = example_component and temporary = "''runs/tmp_1''" and ?w2.0 = ?w2
             and ?w4.0 = ?w4 and ?w5.0 = ?w5 and final = "''runs/best''"])
       (simp_all add: example_environment_def example_component_def example_world_def
          logger_def joinpath_def)
  then show ?thesis
    by (simp add: example_world_def)
qed

subsection \<open>C4: the pairs of routine_multiple_inference\<close>

lemma inference_pairs_paths_only:
  "inference_pairs (Some paths) None = Inr (map (\<lambda>p. (Some p, None)) paths)"
  by (simp add: inference_pairs_def zip_replicate2 map_idI zip_map1 comp_def)

lemma inference_pairs_names_only:
  "inference_pairs None (Some names) = Inr (map (\<lambda>n. (None, Some n)) names)"
  by (simp add: inference_pairs_def zip_replicate1 zip_map2 comp_def)

lemma inference_pairs_both:
  "inference_pairs (Some paths) (Some names) = Inr (map (\<lambda>p. (Some p, None)) paths)"
  by (simp add: inference_pairs_def zip_replicate2 zip_map1 comp_def)

lemma inference_pairs_neither: "inference_pairs None None = Inl AttributeError"
  by (simp add: inference_pairs_def)

text \<open>
  C4. With only one of the two lists given, \<open>routine_multiple_inference\<close> pairs each path
  with no name, or each name with no path, in list order. With both lists given the claim
  fails: the names of the caller are replaced by absent names as well, so that every call
  of \<open>routine_inference\<close> gets the caller's path and no name.
\<close>

theorem routine_multiple_inference_drops_names:
  "inference_pairs (Some [''runs/a'', ''runs/b'']) (Some [''a'', ''b''])
     = Inr [(Some ''runs/a'', None), (Some ''runs/b'', None)]
   \<and> routine_multiple_inference env (Some [path]) (Some [name]) helper_registration_key serialize w
     = routine_inference env (Some path) None helper_registration_key serialize w"
  by (simp add: routine_multiple_inference_def inference_pairs_def split: sum.splits)

end
